theory Spec2Isabelle
  imports Complex_Main
begin

section \<open>TimeUsageTracker (src/tabpfn/model/time_tracker.py)\<close>

text \<open>
  The tracker measures named code segments. Its three attributes are the dictionary
  \<open>active_segments\<close> (label to start time), the list \<open>completed_segments\<close> of
  (label, duration) pairs and the dictionary \<open>_timers\<close> (label to a
  \<open>threading.Timer\<close> object).

  Modelling decisions.
  \<^item> Python floats are abstracted to \<open>real\<close>: clock readings, their differences and
    their sums are exact. Rounding is outside the model.
  \<^item> \<open>time.time()\<close> is an input: every method that reads the clock takes the value it
    reads as the argument \<open>now\<close>. Nothing is assumed about successive readings (the wall
    clock may stand still or step back).
  \<^item> A method returns what it raised or returned, the warnings it passed to
    \<open>warnings.warn\<close>, and the state it left behind. The warning filters of the
    interpreter are outside the model: a warning is the call of \<open>warnings.warn\<close>.
  \<^item> Timer objects live in a store addressed by position; \<open>_timers\<close> holds references
    into it, so that a timer that was cancelled and dropped from the dictionary still exists
    and its thread can still wake up.
  \<^item> Every method call and every timer wake-up is one step, and steps do not overlap. Only
    the last part, on mutual exclusion, takes the timer threads apart into their own steps.
\<close>

subsection \<open>Data\<close>

type_synonym label = string

datatype error = RuntimeError string

datatype warning = UserWarning string

text \<open>
  A \<open>threading.Timer\<close> object as the tracker uses it: the interval, the two arguments
  \<open>(label, start_time)\<close> for the callback, the \<open>daemon\<close> attribute, whether
  \<open>start()\<close> was called, and the \<open>finished\<close> event that \<open>cancel()\<close> sets.
\<close>

record timer =
  interval :: real
  t_label :: label
  t_start_time :: real
  daemon :: bool
  started :: bool
  finished :: bool

record tracker =
  active_segments :: "label \<rightharpoonup> real"
  completed_segments :: "(label \<times> real) list"
  timers :: "label \<rightharpoonup> nat"
  timer_store :: "timer list"

record 'a result =
  outcome :: "error + 'a"
  warned :: "warning list"
  after :: tracker

text \<open>
  Modelled from the spec: the constant \<open>TIME_WARNING_CPU\<close> of \<open>tabpfn.constants\<close> is not
  among the sources; the class docstring and the spec give its default as 10 minutes
  (600 seconds). No property below depends on its value.
\<close>

definition TIME_WARNING_CPU :: real where
  "TIME_WARNING_CPU = 600"

definition quote :: string where
  "quote = [CHR 0x27]"

subsection \<open>The timer objects\<close>

text \<open>
  \<open>threading.Timer(interval, function, args=(label, start_time))\<close> allocates a fresh
  object; its reference is the next free position of the store.
\<close>

definition Timer :: "real \<Rightarrow> label \<Rightarrow> real \<Rightarrow> tracker \<Rightarrow> nat \<times> tracker" where
  "Timer iv l start_time s =
     (length (timer_store s),
      s\<lparr>timer_store := timer_store s @
           [\<lparr>interval = iv, t_label = l, t_start_time = start_time,
             daemon = False, started = False, finished = False\<rparr>]\<rparr>)"

definition update_timer :: "nat \<Rightarrow> (timer \<Rightarrow> timer) \<Rightarrow> tracker \<Rightarrow> tracker" where
  "update_timer r f s =
     (if r < length (timer_store s)
      then s\<lparr>timer_store := (timer_store s)[r := f (timer_store s ! r)]\<rparr>
      else s)"

definition set_daemon :: "nat \<Rightarrow> bool \<Rightarrow> tracker \<Rightarrow> tracker" where
  "set_daemon r b s = update_timer r (\<lambda>t. t\<lparr>daemon := b\<rparr>) s"

definition timer_start :: "nat \<Rightarrow> tracker \<Rightarrow> tracker" where
  "timer_start r s = update_timer r (\<lambda>t. t\<lparr>started := True\<rparr>) s"

definition timer_cancel :: "nat \<Rightarrow> tracker \<Rightarrow> tracker" where
  "timer_cancel r s = update_timer r (\<lambda>t. t\<lparr>finished := True\<rparr>) s"

subsection \<open>The methods\<close>

definition init :: tracker where
  "init = \<lparr>active_segments = Map.empty, completed_segments = [],
           timers = Map.empty, timer_store = []\<rparr>"

definition long_running_message :: "label \<Rightarrow> string" where
  "long_running_message l =
     l @ '' is taking > 10 minutes to run. '' @
     ''Use GPU for faster processing, or if unavailable, '' @
     ''try tabpfn-client API https://github.com/PriorLabs/tabpfn-client''"

definition warn_if_over_limit :: "label \<Rightarrow> real \<Rightarrow> tracker \<Rightarrow> unit result" where
  "warn_if_over_limit l start_time s =
     (if l \<in> dom (active_segments s) \<and> the (active_segments s l) = start_time
      then \<lparr>outcome = Inr (), warned = [UserWarning (long_running_message l)], after = s\<rparr>
      else \<lparr>outcome = Inr (), warned = [], after = s\<rparr>)"

definition already_active_message :: "label \<Rightarrow> string" where
  "already_active_message l = ''Segment '' @ quote @ l @ quote @ '' is already active.''"

definition schedule :: "label \<Rightarrow> real \<Rightarrow> tracker \<Rightarrow> tracker" where
  "schedule l start_time s =
     (let (r, s1) = Timer TIME_WARNING_CPU l start_time s;
          s2 = set_daemon r True s1;
          s3 = timer_start r s2
      in s3\<lparr>timers := (timers s3)(l \<mapsto> r)\<rparr>)"

definition start :: "label \<Rightarrow> real \<Rightarrow> tracker \<Rightarrow> unit result" where
  "start l now s =
     (if l \<in> dom (active_segments s)
      then \<lparr>outcome = Inl (RuntimeError (already_active_message l)), warned = [], after = s\<rparr>
      else
        let start_time = now;
            s1 = s\<lparr>active_segments := (active_segments s)(l \<mapsto> start_time)\<rparr>
        in \<lparr>outcome = Inr (), warned = [], after = schedule l start_time s1\<rparr>)"

definition not_active_message :: "label \<Rightarrow> string" where
  "not_active_message l = ''No active segment found with label '' @ quote @ l @ quote @ ''.''"

definition stop :: "label \<Rightarrow> real \<Rightarrow> tracker \<Rightarrow> unit result" where
  "stop l now s =
     (if l \<notin> dom (active_segments s)
      then \<lparr>outcome = Inl (RuntimeError (not_active_message l)), warned = [], after = s\<rparr>
      else
        let start_time = the (active_segments s l);
            s1 = s\<lparr>active_segments := (active_segments s)(l := None)\<rparr>;
            s2 = (if l \<in> dom (timers s1)
                  then let r = the (timers s1 l)
                       in timer_cancel r (s1\<lparr>timers := (timers s1)(l := None)\<rparr>)
                  else s1)
        in \<lparr>outcome = Inr (), warned = [],
            after = s2\<lparr>completed_segments :=
                         completed_segments s2 @ [(l, now - start_time)]\<rparr>\<rparr>)"

definition resetting_message :: "label \<Rightarrow> string" where
  "resetting_message l = ''Resetting '' @ l @ '' time segment.''"

definition reset :: "label \<Rightarrow> real \<Rightarrow> tracker \<Rightarrow> unit result" where
  "reset l now s =
     (if l \<in> dom (active_segments s)
      then
        let s1 = (if l \<in> dom (timers s) then timer_cancel (the (timers s l)) s else s);
            start_time = now;
            s2 = s1\<lparr>active_segments := (active_segments s1)(l \<mapsto> start_time)\<rparr>
        in \<lparr>outcome = Inr (), warned = [UserWarning (resetting_message l)],
            after = schedule l start_time s2\<rparr>
      else \<lparr>outcome = Inr (), warned = [], after = s\<rparr>)"

text \<open>Python's \<open>sum\<close> adds from the left, starting at 0.\<close>

definition py_sum :: "real list \<Rightarrow> real" where
  "py_sum xs = foldl (+) 0 xs"

definition total_time :: "label list option \<Rightarrow> tracker \<Rightarrow> real result" where
  "total_time labels s =
     (case labels of
        None \<Rightarrow>
          \<lparr>outcome = Inr (py_sum (map snd (completed_segments s))), warned = [], after = s\<rparr>
      | Some ls \<Rightarrow>
          \<lparr>outcome = Inr (py_sum (map snd (filter (\<lambda>(seg, duration). seg \<in> set ls)
                                               (completed_segments s)))),
            warned = [], after = s\<rparr>)"

subsection \<open>The timer thread\<close>

text \<open>
  The thread of a started timer sleeps for the interval and then runs the body of
  \<open>threading.Timer.run\<close>: unless \<open>finished\<close> is set it calls the callback with the stored
  arguments, and then it sets \<open>finished\<close>. The sleep is not modelled: \<open>timer_run\<close> is the
  wake-up, and it may be taken at any point between two method calls. A thread runs once;
  a second wake-up of the same timer finds \<open>finished\<close> set.
\<close>

definition timer_run :: "nat \<Rightarrow> tracker \<Rightarrow> unit result" where
  "timer_run r s =
     (if r < length (timer_store s) \<and> started (timer_store s ! r)
      then
        let t = timer_store s ! r;
            res = (if \<not> finished t then warn_if_over_limit (t_label t) (t_start_time t) s
                   else \<lparr>outcome = Inr (), warned = [], after = s\<rparr>)
        in res\<lparr>after := timer_cancel r (after res)\<rparr>
      else \<lparr>outcome = Inr (), warned = [], after = s\<rparr>)"

subsection \<open>Histories\<close>

text \<open>
  A caller makes any sequence of calls, each with its own clock reading, and may catch the
  errors; timer threads wake up in between. \<open>run\<close> gives the state after such a history.
\<close>

datatype event =
  Start label real
| Stop label real
| Reset label real
| TotalTime "label list option"
| TimerRun nat

fun step :: "tracker \<Rightarrow> event \<Rightarrow> tracker" where
  "step s (Start l now) = after (start l now s)"
| "step s (Stop l now) = after (stop l now s)"
| "step s (Reset l now) = after (reset l now s)"
| "step s (TotalTime labels) = after (total_time labels s)"
| "step s (TimerRun r) = after (timer_run r s)"

definition run :: "event list \<Rightarrow> tracker \<Rightarrow> tracker" where
  "run evs s = foldl step s evs"

subsection \<open>Timers in the store\<close>

text \<open>
  The timer object as \<open>start\<close> and \<open>reset\<close> leave it in the store: created with the
  threshold and the arguments \<open>(label, start_time)\<close>, marked as daemon, and started.
\<close>

definition new_timer :: "label \<Rightarrow> real \<Rightarrow> timer" where
  "new_timer l t = \<lparr>interval = TIME_WARNING_CPU, t_label = l, t_start_time = t,
       daemon = True, started = True, finished = False\<rparr>"

text \<open>
  A timer is pending when its thread was started and \<open>finished\<close> is not set: its wake-up
  will call the callback. It is current when it is the timer registered for its label and
  the label is active with the start time the timer carries.
\<close>

definition pending :: "tracker \<Rightarrow> nat \<Rightarrow> bool" where
  "pending s r \<longleftrightarrow>
     r < length (timer_store s) \<and> started (timer_store s ! r) \<and> \<not> finished (timer_store s ! r)"

definition current :: "tracker \<Rightarrow> nat \<Rightarrow> bool" where
  "current s r \<longleftrightarrow>
     timers s (t_label (timer_store s ! r)) = Some r \<and>
     active_segments s (t_label (timer_store s ! r)) = Some (t_start_time (timer_store s ! r))"

subsection \<open>Timer threads step by step\<close>

text \<open>
  The class creates no lock and no method body or callback is inside a critical section, so
  nothing orders the steps of a timer thread against the calls of the caller's thread. The
  thread of a timer passes three points: the test of \<open>finished\<close> in
  \<open>threading.Timer.run\<close> after the sleep (\<open>Wake\<close>), the condition of the \<open>if\<close> in
  \<open>_warn_if_over_limit\<close> (\<open>Guard\<close>), and the call of \<open>warnings.warn\<close> in its body
  (\<open>Warn\<close>); when it returns, \<open>run\<close> sets \<open>finished\<close>. A schedule is any list of such
  steps and of method calls; a method call is taken as one step, which only removes
  schedules.
\<close>

datatype position = Sleeping | AtGuard | AtWarn | Returned

record config =
  shared :: tracker
  position_of :: "nat \<Rightarrow> position"

datatype action =
  CallStart label real
| CallStop label real
| CallReset label real
| CallTotalTime "label list option"
| Wake nat
| Guard nat
| Warn nat

definition return_from_run :: "nat \<Rightarrow> config \<Rightarrow> config" where
  "return_from_run r c =
     c\<lparr>shared := timer_cancel r (shared c), position_of := (position_of c)(r := Returned)\<rparr>"

fun act :: "action \<Rightarrow> config \<Rightarrow> warning list \<times> config" where
  "act (CallStart l now) c =
     (warned (start l now (shared c)), c\<lparr>shared := after (start l now (shared c))\<rparr>)"
| "act (CallStop l now) c =
     (warned (stop l now (shared c)), c\<lparr>shared := after (stop l now (shared c))\<rparr>)"
| "act (CallReset l now) c =
     (warned (reset l now (shared c)), c\<lparr>shared := after (reset l now (shared c))\<rparr>)"
| "act (CallTotalTime labels) c =
     (warned (total_time labels (shared c)), c\<lparr>shared := after (total_time labels (shared c))\<rparr>)"
| "act (Wake r) c =
     (if r < length (timer_store (shared c)) \<and> started (timer_store (shared c) ! r)
         \<and> position_of c r = Sleeping
      then if \<not> finished (timer_store (shared c) ! r)
           then ([], c\<lparr>position_of := (position_of c)(r := AtGuard)\<rparr>)
           else ([], return_from_run r c)
      else ([], c))"
| "act (Guard r) c =
     (if position_of c r = AtGuard
      then let l = t_label (timer_store (shared c) ! r);
               start_time = t_start_time (timer_store (shared c) ! r)
           in if l \<in> dom (active_segments (shared c))
                 \<and> the (active_segments (shared c) l) = start_time
              then ([], c\<lparr>position_of := (position_of c)(r := AtWarn)\<rparr>)
              else ([], return_from_run r c)
      else ([], c))"
| "act (Warn r) c =
     (if position_of c r = AtWarn
      then ([UserWarning (long_running_message (t_label (timer_store (shared c) ! r)))],
            return_from_run r c)
      else ([], c))"

fun play :: "action list \<Rightarrow> config \<Rightarrow> warning list \<times> config" where
  "play [] c = ([], c)"
| "play (a # as) c =
     (let (w, c1) = act a c; (ws, c2) = play as c1 in (w @ ws, c2))"

definition boot :: config where
  "boot = \<lparr>shared = init, position_of = (\<lambda>r. Sleeping)\<rparr>"

section \<open>Properties\<close>

subsection \<open>What each method does to each attribute\<close>

lemma update_timer_fields [simp]:
  "active_segments (update_timer r f s) = active_segments s"
  "completed_segments (update_timer r f s) = completed_segments s"
  "timers (update_timer r f s) = timers s"
  "length (timer_store (update_timer r f s)) = length (timer_store s)"
  by (simp_all add: update_timer_def)

lemma timer_cancel_fields [simp]:
  "active_segments (timer_cancel r s) = active_segments s"
  "completed_segments (timer_cancel r s) = completed_segments s"
  "timers (timer_cancel r s) = timers s"
  "length (timer_store (timer_cancel r s)) = length (timer_store s)"
  by (simp_all add: timer_cancel_def)

lemma schedule_fields [simp]:
  "active_segments (schedule l t s) = active_segments s"
  "completed_segments (schedule l t s) = completed_segments s"
  "timers (schedule l t s) = (timers s)(l \<mapsto> length (timer_store s))"
  "timer_store (schedule l t s) = timer_store s @
     [\<lparr>interval = TIME_WARNING_CPU, t_label = l, t_start_time = t,
       daemon = True, started = True, finished = False\<rparr>]"
  by (simp_all add: schedule_def Timer_def set_daemon_def timer_start_def update_timer_def)

lemma py_sum_sum_list: "py_sum xs = sum_list xs"
proof -
  have "foldl (+) a xs = a + sum_list xs" for a :: real
    by (induction xs arbitrary: a) simp_all
  then show ?thesis by (simp add: py_sum_def)
qed

lemma start_fields:
  "active_segments (after (start l now s)) =
     (if l \<in> dom (active_segments s) then active_segments s else (active_segments s)(l \<mapsto> now))"
  "completed_segments (after (start l now s)) = completed_segments s"
  "timers (after (start l now s)) =
     (if l \<in> dom (active_segments s) then timers s else (timers s)(l \<mapsto> length (timer_store s)))"
  by (simp_all add: start_def Let_def)

lemma stop_fields:
  "active_segments (after (stop l now s)) = (active_segments s)(l := None)"
  "completed_segments (after (stop l now s)) =
     (if l \<in> dom (active_segments s)
      then completed_segments s @ [(l, now - the (active_segments s l))]
      else completed_segments s)"
  "timers (after (stop l now s)) =
     (if l \<in> dom (active_segments s) then (timers s)(l := None) else timers s)"
  by (auto simp add: stop_def Let_def)

lemma reset_fields:
  "active_segments (after (reset l now s)) =
     (if l \<in> dom (active_segments s) then (active_segments s)(l \<mapsto> now) else active_segments s)"
  "completed_segments (after (reset l now s)) = completed_segments s"
  "timers (after (reset l now s)) =
     (if l \<in> dom (active_segments s) then (timers s)(l \<mapsto> length (timer_store s)) else timers s)"
  by (simp_all add: reset_def Let_def)

lemma total_time_after: "after (total_time labels s) = s"
  by (simp add: total_time_def split: option.split)

lemma timer_run_fields:
  "active_segments (after (timer_run r s)) = active_segments s"
  "completed_segments (after (timer_run r s)) = completed_segments s"
  "timers (after (timer_run r s)) = timers s"
  by (simp_all add: timer_run_def warn_if_over_limit_def Let_def)

lemma run_Nil [simp]: "run [] s = s"
  by (simp add: run_def)

lemma run_Cons [simp]: "run (e # evs) s = run evs (step s e)"
  by (simp add: run_def)

lemma run_snoc [simp]: "run (evs @ [e]) s = step (run evs s) e"
  by (simp add: run_def)

lemma step_keeps_inactive:
  "l \<notin> dom (active_segments s) \<Longrightarrow> \<forall>t. e \<noteq> Start l t \<Longrightarrow>
   l \<notin> dom (active_segments (step s e))"
  by (cases e) (auto simp: start_fields stop_fields reset_fields total_time_after timer_run_fields
      split: if_splits)

lemma run_keeps_inactive:
  "l \<notin> dom (active_segments s) \<Longrightarrow> \<forall>t. Start l t \<notin> set evs \<Longrightarrow>
   l \<notin> dom (active_segments (run evs s))"
proof (induction evs arbitrary: s)
  case Nil
  then show ?case by simp
next
  case (Cons e evs)
  from Cons.prems have "l \<notin> dom (active_segments (step s e))"
    by (intro step_keeps_inactive) auto
  with Cons show ?case by simp
qed

lemma step_keeps_active:
  "l \<in> dom (active_segments s) \<Longrightarrow> \<forall>t. e \<noteq> Stop l t \<Longrightarrow>
   l \<in> dom (active_segments (step s e))"
  by (cases e) (auto simp: start_fields stop_fields reset_fields total_time_after timer_run_fields
      split: if_splits)

lemma run_keeps_active:
  "l \<in> dom (active_segments s) \<Longrightarrow> \<forall>t. Stop l t \<notin> set evs \<Longrightarrow>
   l \<in> dom (active_segments (run evs s))"
proof (induction evs arbitrary: s)
  case Nil
  then show ?case by simp
next
  case (Cons e evs)
  from Cons.prems have "l \<in> dom (active_segments (step s e))"
    by (intro step_keeps_active) auto
  with Cons show ?case by simp
qed

lemma stop_outcome:
  "outcome (stop l now s) =
     (if l \<in> dom (active_segments s) then Inr ()
      else Inl (RuntimeError (not_active_message l)))"
  by (simp add: stop_def Let_def)

lemma start_outcome:
  "outcome (start l now s) =
     (if l \<in> dom (active_segments s) then Inl (RuntimeError (already_active_message l))
      else Inr ())"
  by (simp add: start_def Let_def)

lemmas model_defs = init_def start_def stop_def reset_def schedule_def Timer_def set_daemon_def
  timer_start_def timer_cancel_def update_timer_def total_time_def timer_run_def
  warn_if_over_limit_def py_sum_def Let_def

subsection \<open>Usage errors\<close>

text \<open>
  Claim C2. For every label that is not active, \<open>stop\<close> raises the RuntimeError
  "No active segment found with label '<label>'.", whose message contains the label. This
  covers a label that was never started (no \<open>start\<close> of it in the history since the
  tracker was created) and a label that was stopped and not started again.
\<close>

theorem stop_inactive_fails:
  "(l \<notin> dom (active_segments s) \<longrightarrow>
      outcome (stop l now s) =
        Inl (RuntimeError (''No active segment found with label '' @ [CHR 0x27] @ l @ [CHR 0x27] @ ''.'')))
   \<and> ((\<forall>t. Start l t \<notin> set evs) \<longrightarrow>
      outcome (stop l now (run evs init)) = Inl (RuntimeError (not_active_message l)))
   \<and> (outcome (stop l t s') = Inr () \<and> (\<forall>t. Start l t \<notin> set evs') \<longrightarrow>
      outcome (stop l now (run evs' (after (stop l t s')))) =
        Inl (RuntimeError (not_active_message l)))"
proof (intro conjI impI)
  assume "l \<notin> dom (active_segments s)"
  then show "outcome (stop l now s) =
        Inl (RuntimeError (''No active segment found with label '' @ [CHR 0x27] @ l @ [CHR 0x27] @ ''.''))"
    by (simp add: stop_outcome not_active_message_def quote_def)
next
  assume "\<forall>t. Start l t \<notin> set evs"
  moreover have "l \<notin> dom (active_segments init)"
    by (simp add: init_def)
  ultimately have "l \<notin> dom (active_segments (run evs init))"
    by (intro run_keeps_inactive)
  then show "outcome (stop l now (run evs init)) = Inl (RuntimeError (not_active_message l))"
    by (simp add: stop_outcome)
next
  assume a: "outcome (stop l t s') = Inr () \<and> (\<forall>t. Start l t \<notin> set evs')"
  have "l \<notin> dom (active_segments (after (stop l t s')))"
    by (simp add: stop_fields)
  with a have "l \<notin> dom (active_segments (run evs' (after (stop l t s'))))"
    by (intro run_keeps_inactive) auto
  then show "outcome (stop l now (run evs' (after (stop l t s')))) =
      Inl (RuntimeError (not_active_message l))"
    by (simp add: stop_outcome)
qed

theorem stop_inactive_fails_witness:
  "''a'' \<notin> dom (active_segments init)
   \<and> outcome (stop ''a'' 1 init) =
       Inl (RuntimeError (''No active segment found with label '' @ [CHR 0x27] @ ''a'' @ [CHR 0x27] @ ''.''))
   \<and> (\<forall>t. Start ''a'' t \<notin> set [Start ''b'' 0, Reset ''a'' 1])
   \<and> outcome (stop ''a'' 2 (run [Start ''b'' 0, Reset ''a'' 1] init)) =
       Inl (RuntimeError (not_active_message ''a''))
   \<and> outcome (stop ''a'' 1 (after (start ''a'' 0 init))) = Inr ()
   \<and> (\<forall>t. Start ''a'' t \<notin> set [Start ''b'' 2])
   \<and> outcome (stop ''a'' 5 (run [Start ''b'' 2] (after (stop ''a'' 1 (after (start ''a'' 0 init)))))) =
       Inl (RuntimeError (not_active_message ''a''))"
proof -
  have h1: "''a'' \<notin> dom (active_segments init)"
    by (simp add: init_def)
  have h2: "\<forall>t. Start ''a'' t \<notin> set [Start ''b'' 0, Reset ''a'' 1]"
    by simp
  have h3: "outcome (stop ''a'' 1 (after (start ''a'' 0 init))) = Inr ()"
    by (simp add: model_defs)
  have h4: "\<forall>t. Start ''a'' t \<notin> set [Start ''b'' 2]"
    by simp
  show ?thesis
    using h1 h2 h3 h4
      stop_inactive_fails [of "''a''" init 1 "[Start ''b'' 0, Reset ''a'' 1]" 1
        "after (start ''a'' 0 init)" "[Start ''b'' 2]"]
      stop_inactive_fails [of "''a''" init 2 "[Start ''b'' 0, Reset ''a'' 1]" 1
        "after (start ''a'' 0 init)" "[Start ''b'' 2]"]
      stop_inactive_fails [of "''a''" init 5 "[Start ''b'' 0, Reset ''a'' 1]" 1
        "after (start ''a'' 0 init)" "[Start ''b'' 2]"]
    by simp
qed

text \<open>
  Claim C3. For every label that is active, \<open>start\<close> raises the RuntimeError
  "Segment '<label>' is already active."; in particular a second \<open>start\<close> of a label
  fails when no \<open>stop\<close> of that label came in between, whatever else was called.
\<close>

theorem start_active_fails:
  "(l \<in> dom (active_segments s) \<longrightarrow>
      outcome (start l now s) =
        Inl (RuntimeError (''Segment '' @ [CHR 0x27] @ l @ [CHR 0x27] @ '' is already active.'')))
   \<and> (outcome (start l t s') = Inr () \<and> (\<forall>t. Stop l t \<notin> set evs) \<longrightarrow>
      outcome (start l now (run evs (after (start l t s')))) =
        Inl (RuntimeError (already_active_message l)))"
proof (intro conjI impI)
  assume "l \<in> dom (active_segments s)"
  then show "outcome (start l now s) =
      Inl (RuntimeError (''Segment '' @ [CHR 0x27] @ l @ [CHR 0x27] @ '' is already active.''))"
    by (simp add: start_outcome already_active_message_def quote_def)
next
  assume a: "outcome (start l t s') = Inr () \<and> (\<forall>t. Stop l t \<notin> set evs)"
  then have "l \<in> dom (active_segments (after (start l t s')))"
    by (simp add: start_fields start_outcome split: if_splits)
  with a have "l \<in> dom (active_segments (run evs (after (start l t s'))))"
    by (intro run_keeps_active) auto
  then show "outcome (start l now (run evs (after (start l t s')))) =
      Inl (RuntimeError (already_active_message l))"
    by (simp add: start_outcome)
qed

theorem start_active_fails_witness:
  "''a'' \<in> dom (active_segments (after (start ''a'' 0 init)))
   \<and> outcome (start ''a'' 3 (after (start ''a'' 0 init))) =
       Inl (RuntimeError (''Segment '' @ [CHR 0x27] @ ''a'' @ [CHR 0x27] @ '' is already active.''))
   \<and> outcome (start ''a'' 0 init) = Inr ()
   \<and> (\<forall>t. Stop ''a'' t \<notin> set [Start ''b'' 1, Reset ''a'' 2, Stop ''b'' 2])
   \<and> outcome (start ''a'' 3 (run [Start ''b'' 1, Reset ''a'' 2, Stop ''b'' 2]
                                (after (start ''a'' 0 init)))) =
       Inl (RuntimeError (already_active_message ''a''))"
proof -
  have h1: "''a'' \<in> dom (active_segments (after (start ''a'' 0 init)))"
    by (simp add: model_defs)
  have h2: "outcome (start ''a'' 0 init) = Inr ()"
    by (simp add: model_defs)
  have h3: "\<forall>t. Stop ''a'' t \<notin> set [Start ''b'' 1, Reset ''a'' 2, Stop ''b'' 2]"
    by simp
  show ?thesis
    using h1 h2 h3
      start_active_fails [of "''a''" "after (start ''a'' 0 init)" 3 0 init
        "[Start ''b'' 1, Reset ''a'' 2, Stop ''b'' 2]"]
    by simp
qed

text \<open>
  Claim C9. A call of \<open>start\<close> or \<open>stop\<close> that raises leaves the tracker exactly as it
  was (active segments, completed records, timer dictionary and timer objects) and emits no
  warning.
\<close>

theorem usage_errors_atomic:
  "(outcome (start l now s) = Inl e \<longrightarrow>
      after (start l now s) = s \<and> warned (start l now s) = [])
   \<and> (outcome (stop l' now' s') = Inl e' \<longrightarrow>
      after (stop l' now' s') = s' \<and> warned (stop l' now' s') = [])"
  by (simp add: start_def stop_def Let_def)

theorem usage_errors_atomic_witness:
  "outcome (start ''a'' 4 (after (start ''a'' 0 init))) =
     Inl (RuntimeError (already_active_message ''a''))
   \<and> after (start ''a'' 4 (after (start ''a'' 0 init))) = after (start ''a'' 0 init)
   \<and> warned (start ''a'' 4 (after (start ''a'' 0 init))) = []
   \<and> outcome (stop ''b'' 5 (after (start ''a'' 0 init))) =
       Inl (RuntimeError (not_active_message ''b''))
   \<and> after (stop ''b'' 5 (after (start ''a'' 0 init))) = after (start ''a'' 0 init)
   \<and> warned (stop ''b'' 5 (after (start ''a'' 0 init))) = []"
proof -
  have h1: "outcome (start ''a'' 4 (after (start ''a'' 0 init))) =
      Inl (RuntimeError (already_active_message ''a''))"
    by (simp add: model_defs)
  have h2: "outcome (stop ''b'' 5 (after (start ''a'' 0 init))) =
      Inl (RuntimeError (not_active_message ''b''))"
    by (simp add: model_defs)
  show ?thesis
    using h1 h2
      usage_errors_atomic [of "''a''" 4 "after (start ''a'' 0 init)"
        "RuntimeError (already_active_message ''a'')" "''b''" 5 "after (start ''a'' 0 init)"
        "RuntimeError (not_active_message ''b'')"]
    by simp
qed

subsection \<open>Reset\<close>

text \<open>
  Claim C4. \<open>reset\<close> of an active label appends nothing to the completed records and sets
  the label's start time to the clock reading of the reset; a following \<open>stop\<close> of the
  label records the duration from the reset, not from the original \<open>start\<close>.
\<close>

theorem reset_restamps:
  "l \<in> dom (active_segments s) \<longrightarrow>
     outcome (reset l now s) = Inr ()
     \<and> completed_segments (after (reset l now s)) = completed_segments s
     \<and> active_segments (after (reset l now s)) = (active_segments s)(l \<mapsto> now)
     \<and> outcome (stop l now' (after (reset l now s))) = Inr ()
     \<and> completed_segments (after (stop l now' (after (reset l now s)))) =
         completed_segments s @ [(l, now' - now)]"
  by (simp add: reset_fields stop_fields stop_outcome) (simp add: reset_def Let_def)

theorem reset_restamps_witness:
  "''a'' \<in> dom (active_segments (after (start ''a'' 10 init)))
   \<and> completed_segments (after (reset ''a'' 25 (after (start ''a'' 10 init)))) = []
   \<and> active_segments (after (reset ''a'' 25 (after (start ''a'' 10 init)))) ''a'' = Some 25
   \<and> completed_segments (after (stop ''a'' 32 (after (reset ''a'' 25 (after (start ''a'' 10 init))))))
       = [(''a'', 7)]"
proof -
  have h: "''a'' \<in> dom (active_segments (after (start ''a'' 10 init)))"
    by (simp add: model_defs)
  have c: "completed_segments (after (start ''a'' 10 init)) = []"
    by (simp add: model_defs)
  show ?thesis
    using h c reset_restamps [of "''a''" "after (start ''a'' 10 init)" 25 32]
    by simp
qed

text \<open>
  Claim C7. \<open>reset\<close> of a label that is not active returns normally, emits no warning and
  leaves the whole state unchanged, so every later \<open>total_time\<close> gives what it gave before.
\<close>

theorem reset_inactive_noop:
  "l \<notin> dom (active_segments s) \<longrightarrow>
     outcome (reset l now s) = Inr () \<and> warned (reset l now s) = []
     \<and> after (reset l now s) = s
     \<and> active_segments (after (reset l now s)) = active_segments s
     \<and> completed_segments (after (reset l now s)) = completed_segments s
     \<and> timers (after (reset l now s)) = timers s
     \<and> timer_store (after (reset l now s)) = timer_store s
     \<and> total_time labels (after (reset l now s)) = total_time labels s"
  by (simp add: reset_def)

theorem reset_inactive_noop_witness:
  "''b'' \<notin> dom (active_segments (run [Start ''a'' 0, Start ''b'' 1, Stop ''b'' 3] init))
   \<and> outcome (reset ''b'' 4 (run [Start ''a'' 0, Start ''b'' 1, Stop ''b'' 3] init)) = Inr ()
   \<and> after (reset ''b'' 4 (run [Start ''a'' 0, Start ''b'' 1, Stop ''b'' 3] init)) =
       run [Start ''a'' 0, Start ''b'' 1, Stop ''b'' 3] init
   \<and> outcome (total_time None
        (after (reset ''b'' 4 (run [Start ''a'' 0, Start ''b'' 1, Stop ''b'' 3] init)))) = Inr 2"
proof -
  have h: "''b'' \<notin> dom (active_segments (run [Start ''a'' 0, Start ''b'' 1, Stop ''b'' 3] init))"
    by (simp add: model_defs)
  have v: "outcome (total_time None (run [Start ''a'' 0, Start ''b'' 1, Stop ''b'' 3] init)) = Inr 2"
    by (simp add: model_defs)
  show ?thesis
    using h v
      reset_inactive_noop [of "''b''" "run [Start ''a'' 0, Start ''b'' 1, Stop ''b'' 3] init" 4 None]
    by simp
qed

subsection \<open>Total time\<close>

text \<open>
  Claim C1. In every state, \<open>total_time()\<close> returns the sum of the durations of all
  completed records, and \<open>total_time(labels)\<close> the sum of the durations of exactly the
  completed records whose label is in the list. After segments a, b, a (a and b distinct)
  completed with durations d1, d2, d3, \<open>total_time(["a"])\<close> is d1 + d3. The active
  segments have no influence on the result.
\<close>

theorem total_time_sums:
  "outcome (total_time None s) = Inr (\<Sum>(seg, d)\<leftarrow>completed_segments s. d)
   \<and> outcome (total_time (Some ls) s) =
       Inr (\<Sum>(seg, d)\<leftarrow>completed_segments s. if seg \<in> set ls then d else 0)
   \<and> (a \<noteq> b \<and> completed_segments s' = [(a, d1), (b, d2), (a, d3)] \<longrightarrow>
        outcome (total_time (Some [a]) s') = Inr (d1 + d3))
   \<and> (a \<noteq> b \<longrightarrow>
        outcome (total_time (Some [a])
          (run [Start a t1, Stop a t2, Start b t3, Stop b t4, Start a t5, Stop a t6] init)) =
        Inr ((t2 - t1) + (t6 - t5)))
   \<and> outcome (total_time labels (s\<lparr>active_segments := m\<rparr>)) = outcome (total_time labels s)"
proof (intro conjI impI)
  have "(\<lambda>(seg :: label, d :: real). d) = snd"
    by auto
  then show "outcome (total_time None s) = Inr (\<Sum>(seg, d)\<leftarrow>completed_segments s. d)"
    by (simp add: total_time_def py_sum_sum_list)
next
  have "sum_list (map snd (filter (\<lambda>(seg, d). seg \<in> set ls) xs)) =
      (\<Sum>(seg, d)\<leftarrow>xs. if seg \<in> set ls then d else 0)" for xs :: "(label \<times> real) list"
    by (induction xs) auto
  then show "outcome (total_time (Some ls) s) =
       Inr (\<Sum>(seg, d)\<leftarrow>completed_segments s. if seg \<in> set ls then d else 0)"
    by (simp add: total_time_def py_sum_sum_list)
next
  assume "a \<noteq> b \<and> completed_segments s' = [(a, d1), (b, d2), (a, d3)]"
  then show "outcome (total_time (Some [a]) s') = Inr (d1 + d3)"
    by (auto simp add: total_time_def py_sum_def)
next
  assume ab: "a \<noteq> b"
  have "completed_segments
      (run [Start a t1, Stop a t2, Start b t3, Stop b t4, Start a t5, Stop a t6] init) =
      [(a, t2 - t1), (b, t4 - t3), (a, t6 - t5)]"
    using ab by (simp add: start_fields stop_fields init_def)
  with ab show "outcome (total_time (Some [a])
          (run [Start a t1, Stop a t2, Start b t3, Stop b t4, Start a t5, Stop a t6] init)) =
        Inr ((t2 - t1) + (t6 - t5))"
    by (auto simp add: total_time_def py_sum_def)
next
  show "outcome (total_time labels (s\<lparr>active_segments := m\<rparr>)) = outcome (total_time labels s)"
    by (simp add: total_time_def split: option.split)
qed

theorem total_time_sums_witness:
  "''a'' \<noteq> ''b''
   \<and> completed_segments
        (run [Start ''a'' 0, Start ''b'' 1, Stop ''a'' 2, Stop ''b'' 4, Start ''a'' 5,
              Stop ''a'' 9, Start ''c'' 9] init) =
       [(''a'', 2), (''b'', 3), (''a'', 4)]
   \<and> outcome (total_time (Some [''a''])
        (run [Start ''a'' 0, Start ''b'' 1, Stop ''a'' 2, Stop ''b'' 4, Start ''a'' 5,
              Stop ''a'' 9, Start ''c'' 9] init)) = Inr (2 + 4)
   \<and> outcome (total_time (Some [''a''])
        (run [Start ''a'' 0, Stop ''a'' 2, Start ''b'' 2, Stop ''b'' 5, Start ''a'' 6,
              Stop ''a'' 10] init)) = Inr ((2 - 0) + (10 - 6))"
proof -
  have h1: "''a'' \<noteq> ''b''"
    by simp
  have h2: "completed_segments
        (run [Start ''a'' 0, Start ''b'' 1, Stop ''a'' 2, Stop ''b'' 4, Start ''a'' 5,
              Stop ''a'' 9, Start ''c'' 9] init) =
       [(''a'', 2), (''b'', 3), (''a'', 4)]"
    by (simp add: start_fields stop_fields init_def)
  show ?thesis
    using h1 h2
      total_time_sums [of init "[]" "''a''" "''b''"
        "run [Start ''a'' 0, Start ''b'' 1, Stop ''a'' 2, Stop ''b'' 4, Start ''a'' 5,
              Stop ''a'' 9, Start ''c'' 9] init" 2 3 4 0 2 2 5 6 10 None Map.empty]
    by simp
qed

text \<open>
  Claim C8. \<open>total_time\<close> only reads: it returns a value, never raises, emits no warning
  and leaves the state as it was, so a repeated call returns the same value.
\<close>

theorem total_time_pure:
  "after (total_time labels s) = s
   \<and> warned (total_time labels s) = []
   \<and> (\<exists>v. outcome (total_time labels s) = Inr v)
   \<and> total_time labels (after (total_time labels' s)) = total_time labels s"
  by (simp add: total_time_def split: option.split)

subsection \<open>The timer dictionary follows the active segments\<close>

lemma step_keeps_timers_iff_active:
  "dom (timers s) = dom (active_segments s) \<Longrightarrow>
   dom (timers (step s e)) = dom (active_segments (step s e))"
  by (cases e)
    (auto simp: start_fields stop_fields reset_fields total_time_after timer_run_fields
      split: if_splits)

lemma run_keeps_timers_iff_active:
  "dom (timers s) = dom (active_segments s) \<Longrightarrow>
   dom (timers (run evs s)) = dom (active_segments (run evs s))"
  by (induction evs arbitrary: s) (simp_all add: step_keeps_timers_iff_active)

text \<open>
  Claim C6. After every history of calls and timer wake-ups, the labels that have an entry
  in the timer dictionary are exactly the active labels, and every step keeps it so: a
  successful \<open>start\<close> enters the label in both, a successful \<open>stop\<close> removes it from
  both, and \<open>reset\<close> of an active label keeps it active and registers a newly created
  timer for it.
\<close>

theorem timers_iff_active:
  "dom (timers (run evs init)) = dom (active_segments (run evs init))
   \<and> (dom (timers s) = dom (active_segments s) \<longrightarrow>
        dom (timers (step s e)) = dom (active_segments (step s e)))
   \<and> (outcome (start l1 now1 s1) = Inr () \<longrightarrow>
        l1 \<in> dom (active_segments (after (start l1 now1 s1)))
        \<and> l1 \<in> dom (timers (after (start l1 now1 s1))))
   \<and> (outcome (stop l2 now2 s2) = Inr () \<longrightarrow>
        l2 \<notin> dom (active_segments (after (stop l2 now2 s2)))
        \<and> l2 \<notin> dom (timers (after (stop l2 now2 s2))))
   \<and> (l3 \<in> dom (active_segments s3) \<longrightarrow>
        l3 \<in> dom (active_segments (after (reset l3 now3 s3)))
        \<and> timers (after (reset l3 now3 s3)) l3 = Some (length (timer_store s3)))"
proof (intro conjI impI)
  have "dom (timers init) = dom (active_segments init)"
    by (simp add: init_def)
  then show "dom (timers (run evs init)) = dom (active_segments (run evs init))"
    by (rule run_keeps_timers_iff_active)
next
  assume "dom (timers s) = dom (active_segments s)"
  then show "dom (timers (step s e)) = dom (active_segments (step s e))"
    by (rule step_keeps_timers_iff_active)
next
  assume a: "outcome (start l1 now1 s1) = Inr ()"
  then show "l1 \<in> dom (active_segments (after (start l1 now1 s1)))"
    by (simp add: start_fields start_outcome split: if_splits)
  from a show "l1 \<in> dom (timers (after (start l1 now1 s1)))"
    by (simp add: start_fields start_outcome split: if_splits)
next
  assume a: "outcome (stop l2 now2 s2) = Inr ()"
  show "l2 \<notin> dom (active_segments (after (stop l2 now2 s2)))"
    by (simp add: stop_fields)
  from a show "l2 \<notin> dom (timers (after (stop l2 now2 s2)))"
    by (simp add: stop_fields stop_outcome split: if_splits)
next
  assume a: "l3 \<in> dom (active_segments s3)"
  then show "l3 \<in> dom (active_segments (after (reset l3 now3 s3)))"
    by (simp add: reset_fields)
  from a show "timers (after (reset l3 now3 s3)) l3 = Some (length (timer_store s3))"
    by (simp add: reset_fields)
qed

theorem timers_iff_active_witness:
  "dom (timers (run [Start ''a'' 0, Start ''b'' 1, Reset ''a'' 2, Stop ''b'' 3] init)) =
     dom (active_segments (run [Start ''a'' 0, Start ''b'' 1, Reset ''a'' 2, Stop ''b'' 3] init))
   \<and> dom (timers (after (start ''a'' 0 init))) = dom (active_segments (after (start ''a'' 0 init)))
   \<and> dom (timers (step (after (start ''a'' 0 init)) (Stop ''a'' 4))) =
       dom (active_segments (step (after (start ''a'' 0 init)) (Stop ''a'' 4)))
   \<and> outcome (start ''a'' 0 init) = Inr ()
   \<and> ''a'' \<in> dom (timers (after (start ''a'' 0 init)))
   \<and> outcome (stop ''a'' 4 (after (start ''a'' 0 init))) = Inr ()
   \<and> ''a'' \<notin> dom (timers (after (stop ''a'' 4 (after (start ''a'' 0 init)))))
   \<and> ''a'' \<in> dom (active_segments (after (start ''a'' 0 init)))
   \<and> timers (after (start ''a'' 0 init)) ''a'' = Some 0
   \<and> timers (after (reset ''a'' 2 (after (start ''a'' 0 init)))) ''a'' = Some 1"
proof -
  have h1: "dom (timers (after (start ''a'' 0 init))) =
      dom (active_segments (after (start ''a'' 0 init)))"
    by (simp add: model_defs)
  have h2: "outcome (start ''a'' 0 init) = Inr ()"
    by (simp add: model_defs)
  have h3: "outcome (stop ''a'' 4 (after (start ''a'' 0 init))) = Inr ()"
    by (simp add: model_defs)
  have h4: "''a'' \<in> dom (active_segments (after (start ''a'' 0 init)))"
    by (simp add: model_defs)
  have h5: "timers (after (start ''a'' 0 init)) ''a'' = Some 0"
    by (simp add: model_defs)
  have h6: "length (timer_store (after (start ''a'' 0 init))) = 1"
    by (simp add: model_defs)
  show ?thesis
    using h1 h2 h3 h4 h5 h6
      timers_iff_active [of "[Start ''a'' 0, Start ''b'' 1, Reset ''a'' 2, Stop ''b'' 3]"
        "after (start ''a'' 0 init)" "Stop ''a'' 4" "''a''" 0 init
        "''a''" 4 "after (start ''a'' 0 init)" "''a''" "after (start ''a'' 0 init)" 2]
    by simp
qed

subsection \<open>The long-running warning\<close>

lemma timer_cancel_store:
  "timer_store (timer_cancel r s) = (timer_store s)[r := (timer_store s ! r)\<lparr>finished := True\<rparr>]"
  by (simp add: timer_cancel_def update_timer_def list_update_beyond)

lemma cancel_nth:
  assumes "r < length xs"
  shows "t_label (xs[r0 := (xs ! r0)\<lparr>finished := True\<rparr>] ! r) = t_label (xs ! r)"
    and "t_start_time (xs[r0 := (xs ! r0)\<lparr>finished := True\<rparr>] ! r) = t_start_time (xs ! r)"
    and "started (xs[r0 := (xs ! r0)\<lparr>finished := True\<rparr>] ! r) = started (xs ! r)"
    and "finished (xs[r0 := (xs ! r0)\<lparr>finished := True\<rparr>] ! r) = (r = r0 \<or> finished (xs ! r))"
  using assms by (cases "r = r0"; simp)+

lemma start_store:
  "timer_store (after (start l now s)) =
     (if l \<in> dom (active_segments s) then timer_store s
      else timer_store s @ [new_timer l now])"
  by (simp add: start_def Let_def new_timer_def)

lemma stop_store:
  "timer_store (after (stop l now s)) =
     (if l \<in> dom (active_segments s) \<and> l \<in> dom (timers s)
      then (timer_store s)[the (timers s l) := (timer_store s ! the (timers s l))\<lparr>finished := True\<rparr>]
      else timer_store s)"
  by (auto simp add: stop_def Let_def timer_cancel_store)

lemma reset_store:
  "timer_store (after (reset l now s)) =
     (if l \<in> dom (active_segments s)
      then (if l \<in> dom (timers s)
            then (timer_store s)[the (timers s l) := (timer_store s ! the (timers s l))\<lparr>finished := True\<rparr>]
            else timer_store s) @ [new_timer l now]
      else timer_store s)"
  by (auto simp add: reset_def Let_def timer_cancel_store new_timer_def)

lemma timer_run_store:
  "timer_store (after (timer_run r s)) =
     (if r < length (timer_store s) \<and> started (timer_store s ! r)
      then (timer_store s)[r := (timer_store s ! r)\<lparr>finished := True\<rparr>]
      else timer_store s)"
  by (simp add: timer_run_def warn_if_over_limit_def Let_def timer_cancel_store)

lemma step_timer_attrs:
  assumes "r < length (timer_store s)"
  shows "r < length (timer_store (step s e))
    \<and> t_label (timer_store (step s e) ! r) = t_label (timer_store s ! r)
    \<and> t_start_time (timer_store (step s e) ! r) = t_start_time (timer_store s ! r)
    \<and> started (timer_store (step s e) ! r) = started (timer_store s ! r)
    \<and> (finished (timer_store s ! r) \<longrightarrow> finished (timer_store (step s e) ! r))"
proof (cases e)
  case (Start l now)
  with assms show ?thesis
    by (simp add: start_store nth_append)
next
  case (Stop l now)
  with assms show ?thesis
    by (simp add: stop_store cancel_nth)
next
  case (Reset l now)
  with assms show ?thesis
    by (simp add: reset_store nth_append cancel_nth)
next
  case (TotalTime labels)
  with assms show ?thesis
    by (simp add: total_time_after)
next
  case (TimerRun r')
  with assms show ?thesis
    by (simp add: timer_run_store cancel_nth)
qed

lemma timer_run_warned:
  "warned (timer_run r s) =
     (if pending s r \<and>
         active_segments s (t_label (timer_store s ! r)) = Some (t_start_time (timer_store s ! r))
      then [UserWarning (long_running_message (t_label (timer_store s ! r)))]
      else [])"
  by (auto simp add: timer_run_def warn_if_over_limit_def Let_def pending_def)

lemma run_timer_attrs:
  assumes "r < length (timer_store s)"
  shows "r < length (timer_store (run evs s))
    \<and> t_label (timer_store (run evs s) ! r) = t_label (timer_store s ! r)
    \<and> t_start_time (timer_store (run evs s) ! r) = t_start_time (timer_store s ! r)
    \<and> started (timer_store (run evs s) ! r) = started (timer_store s ! r)
    \<and> (finished (timer_store s ! r) \<longrightarrow> finished (timer_store (run evs s) ! r))"
  using assms
proof (induction evs arbitrary: s)
  case Nil
  then show ?case by simp
next
  case (Cons e evs)
  from step_timer_attrs [OF Cons.prems, of e]
  have st: "r < length (timer_store (step s e))" by simp
  from Cons.IH [OF st] step_timer_attrs [OF Cons.prems, of e] show ?case
    by simp
qed

lemma step_pending_current:
  assumes inv: "\<And>r. pending s r \<Longrightarrow> current s r"
    and p: "pending (step s e) r"
  shows "current (step s e) r"
proof (cases e)
  case (Start l now)
  show ?thesis
  proof (cases "l \<in> dom (active_segments s)")
    case True
    then have "step s e = s"
      by (simp add: Start start_def)
    with inv p show ?thesis by simp
  next
    case False
    note inactive = this
    show ?thesis
    proof (cases "r < length (timer_store s)")
      case True
      with p inactive have "pending s r"
        by (simp add: pending_def Start start_store nth_append)
      then have c: "current s r" by (rule inv)
      with inactive have "t_label (timer_store s ! r) \<noteq> l"
        by (auto simp: current_def)
      with c True inactive show ?thesis
        by (simp add: current_def Start start_fields start_store nth_append)
    next
      case False
      with p inactive have "r = length (timer_store s)"
        by (simp add: pending_def Start start_store)
      with inactive show ?thesis
        by (simp add: current_def Start start_fields start_store new_timer_def)
    qed
  qed
next
  case (Stop l now)
  show ?thesis
  proof (cases "l \<in> dom (active_segments s)")
    case False
    then have "step s e = s"
      by (simp add: Stop stop_def)
    with inv p show ?thesis by simp
  next
    case True
    note active = this
    from p have len: "r < length (timer_store s)"
      by (auto simp: pending_def Stop stop_store split: if_splits)
    from p active len have ps: "pending s r"
      by (auto simp: pending_def Stop stop_store cancel_nth split: if_splits)
    then have c: "current s r" by (rule inv)
    have "t_label (timer_store s ! r) \<noteq> l"
    proof
      assume "t_label (timer_store s ! r) = l"
      with c have "l \<in> dom (timers s)" and "the (timers s l) = r"
        by (auto simp: current_def)
      with p active len show False
        by (simp add: pending_def Stop stop_store cancel_nth)
    qed
    with c active len show ?thesis
      by (auto simp: current_def Stop stop_fields stop_store cancel_nth)
  qed
next
  case (Reset l now)
  show ?thesis
  proof (cases "l \<in> dom (active_segments s)")
    case False
    then have "step s e = s"
      by (simp add: Reset reset_def)
    with inv p show ?thesis by simp
  next
    case True
    note active = this
    show ?thesis
    proof (cases "r < length (timer_store s)")
      case True
      note len = this
      from p active len have ps: "pending s r"
        by (auto simp: pending_def Reset reset_store nth_append cancel_nth split: if_splits)
      then have c: "current s r" by (rule inv)
      have "t_label (timer_store s ! r) \<noteq> l"
      proof
        assume "t_label (timer_store s ! r) = l"
        with c have "l \<in> dom (timers s)" and "the (timers s l) = r"
          by (auto simp: current_def)
        with p active len show False
          by (simp add: pending_def Reset reset_store nth_append cancel_nth)
      qed
      with c active len show ?thesis
        by (auto simp: current_def Reset reset_fields reset_store nth_append cancel_nth)
    next
      case False
      with p active have "r = length (timer_store s)"
        by (auto simp: pending_def Reset reset_store split: if_splits)
      with active show ?thesis
        by (auto simp: current_def Reset reset_fields reset_store new_timer_def nth_append)
    qed
  qed
next
  case (TotalTime labels)
  with inv p show ?thesis
    by (simp add: total_time_after)
next
  case (TimerRun r')
  from p have len: "r < length (timer_store s)"
    by (auto simp: pending_def TimerRun timer_run_store split: if_splits)
  with p have "pending s r"
    by (auto simp: pending_def TimerRun timer_run_store cancel_nth split: if_splits)
  then have "current s r" by (rule inv)
  with len show ?thesis
    by (auto simp: current_def TimerRun timer_run_fields timer_run_store cancel_nth)
qed

lemma run_pending_current:
  assumes "\<And>r. pending s r \<Longrightarrow> current s r"
  shows "pending (run evs s) r \<Longrightarrow> current (run evs s) r"
  using assms
proof (induction evs arbitrary: s r)
  case Nil
  then show ?case by simp
next
  case (Cons e evs)
  have "\<And>r. pending (step s e) r \<Longrightarrow> current (step s e) r"
    using Cons.prems(2) by (rule step_pending_current)
  with Cons.IH [of "step s e" r] Cons.prems(1) show ?case
    by simp
qed

lemma reachable_pending_current:
  "pending (run evs init) r \<Longrightarrow> current (run evs init) r"
  by (rule run_pending_current) (simp_all add: pending_def init_def)

lemma timer_run_not_pending:
  "r < length (timer_store s) \<Longrightarrow> \<not> pending (after (timer_run r s)) r"
  by (simp add: pending_def timer_run_store cancel_nth)

lemma run_not_pending:
  assumes "r < length (timer_store s)" and "\<not> pending s r"
  shows "\<not> pending (run evs s) r"
  using assms run_timer_attrs [OF assms(1), of evs]
  by (auto simp: pending_def)

lemmas timer_defs = pending_def current_def new_timer_def

text \<open>
  Claim C5. The callback that \<open>start\<close> and \<open>reset\<close> schedule warns only if, when it
  runs, its label is active with the start time the timer was given; the timer is given the
  start time that the scheduling call stored for the label. So the wake-up of a timer whose
  label was stopped (and not started again) emits nothing, a timer whose label is active
  again with a different start time emits nothing, and a timer emits at most one warning:
  every wake-up after its first is silent. In every reachable state, a timer that warns is
  the one registered for its label.
\<close>

theorem warning_guard:
  "(warned (warn_if_over_limit l st s) \<noteq> [] \<longrightarrow> active_segments s l = Some st)
   \<and> (warned (timer_run ra sa) \<noteq> [] \<longrightarrow>
        ra < length (timer_store sa) \<and> \<not> finished (timer_store sa ! ra)
        \<and> active_segments sa (t_label (timer_store sa ! ra)) =
            Some (t_start_time (timer_store sa ! ra))
        \<and> warned (timer_run ra sa) =
            [UserWarning (long_running_message (t_label (timer_store sa ! ra)))])
   \<and> (outcome (start lb nowb sb) = Inr () \<longrightarrow>
        active_segments (after (start lb nowb sb)) lb = Some nowb
        \<and> timers (after (start lb nowb sb)) lb = Some (length (timer_store sb))
        \<and> timer_store (after (start lb nowb sb)) ! length (timer_store sb) = new_timer lb nowb)
   \<and> (lc \<in> dom (active_segments sc) \<longrightarrow>
        active_segments (after (reset lc nowc sc)) lc = Some nowc
        \<and> timers (after (reset lc nowc sc)) lc = Some (length (timer_store sc))
        \<and> timer_store (after (reset lc nowc sc)) ! length (timer_store sc) = new_timer lc nowc)
   \<and> (outcome (stop ld nowd sd) = Inr () \<and> rd < length (timer_store sd)
        \<and> t_label (timer_store sd ! rd) = ld \<and> (\<forall>t. Start ld t \<notin> set evsd) \<longrightarrow>
        warned (timer_run rd (run evsd (after (stop ld nowd sd)))) = [])
   \<and> (active_segments se le = Some st' \<and> st' \<noteq> ste \<longrightarrow>
        warned (warn_if_over_limit le ste se) = [])
   \<and> (rf < length (timer_store sf) \<longrightarrow>
        warned (timer_run rf (run evsf (after (timer_run rf sf)))) = [])
   \<and> (warned (timer_run rg (run evsg init)) \<noteq> [] \<longrightarrow>
        timers (run evsg init) (t_label (timer_store (run evsg init) ! rg)) = Some rg)"
proof (intro conjI impI)
  assume "warned (warn_if_over_limit l st s) \<noteq> []"
  then show "active_segments s l = Some st"
    by (auto simp: warn_if_over_limit_def split: if_splits)
next
  assume w: "warned (timer_run ra sa) \<noteq> []"
  then have p: "pending sa ra"
    and a: "active_segments sa (t_label (timer_store sa ! ra)) =
      Some (t_start_time (timer_store sa ! ra))"
    by (simp_all add: timer_run_warned split: if_splits)
  from p show "ra < length (timer_store sa)" and "\<not> finished (timer_store sa ! ra)"
    by (simp_all add: pending_def)
  from a show "active_segments sa (t_label (timer_store sa ! ra)) =
      Some (t_start_time (timer_store sa ! ra))" .
  from p a show "warned (timer_run ra sa) =
      [UserWarning (long_running_message (t_label (timer_store sa ! ra)))]"
    by (simp add: timer_run_warned)
next
  assume "outcome (start lb nowb sb) = Inr ()"
  then have i: "lb \<notin> dom (active_segments sb)"
    by (simp add: start_outcome split: if_splits)
  then show "active_segments (after (start lb nowb sb)) lb = Some nowb"
    and "timers (after (start lb nowb sb)) lb = Some (length (timer_store sb))"
    and "timer_store (after (start lb nowb sb)) ! length (timer_store sb) = new_timer lb nowb"
    by (simp_all add: start_fields start_store)
next
  assume a: "lc \<in> dom (active_segments sc)"
  then show "active_segments (after (reset lc nowc sc)) lc = Some nowc"
    and "timers (after (reset lc nowc sc)) lc = Some (length (timer_store sc))"
    by (simp_all add: reset_fields)
  from a show "timer_store (after (reset lc nowc sc)) ! length (timer_store sc) = new_timer lc nowc"
    by (simp add: reset_store nth_append)
next
  assume a: "outcome (stop ld nowd sd) = Inr () \<and> rd < length (timer_store sd)
        \<and> t_label (timer_store sd ! rd) = ld \<and> (\<forall>t. Start ld t \<notin> set evsd)"
  let ?s = "after (stop ld nowd sd)"
  from a have len: "rd < length (timer_store sd)" by simp
  from step_timer_attrs [OF len, of "Stop ld nowd"]
  have len': "rd < length (timer_store ?s)" and lab: "t_label (timer_store ?s ! rd) = t_label (timer_store sd ! rd)"
    by simp_all
  have "ld \<notin> dom (active_segments ?s)"
    by (simp add: stop_fields)
  with a have "ld \<notin> dom (active_segments (run evsd ?s))"
    by (intro run_keeps_inactive) auto
  moreover from run_timer_attrs [OF len', of evsd] lab a
  have "t_label (timer_store (run evsd ?s) ! rd) = ld"
    by simp
  ultimately show "warned (timer_run rd (run evsd ?s)) = []"
    by (auto simp: timer_run_warned)
next
  assume "active_segments se le = Some st' \<and> st' \<noteq> ste"
  then show "warned (warn_if_over_limit le ste se) = []"
    by (auto simp: warn_if_over_limit_def)
next
  assume len: "rf < length (timer_store sf)"
  from step_timer_attrs [OF len, of "TimerRun rf"]
  have "rf < length (timer_store (after (timer_run rf sf)))"
    by simp
  moreover from len have "\<not> pending (after (timer_run rf sf)) rf"
    by (rule timer_run_not_pending)
  ultimately have "\<not> pending (run evsf (after (timer_run rf sf))) rf"
    by (rule run_not_pending)
  then show "warned (timer_run rf (run evsf (after (timer_run rf sf)))) = []"
    by (simp add: timer_run_warned)
next
  assume "warned (timer_run rg (run evsg init)) \<noteq> []"
  then have "pending (run evsg init) rg"
    by (simp add: timer_run_warned split: if_splits)
  then have "current (run evsg init) rg"
    by (rule reachable_pending_current)
  then show "timers (run evsg init) (t_label (timer_store (run evsg init) ! rg)) = Some rg"
    by (simp add: current_def)
qed

theorem warning_guard_witness:
  "warned (warn_if_over_limit ''a'' 0 (after (start ''a'' 0 init))) \<noteq> []
   \<and> active_segments (after (start ''a'' 0 init)) ''a'' = Some 0
   \<and> warned (timer_run 0 (after (start ''a'' 0 init))) =
       [UserWarning (long_running_message ''a'')]
   \<and> timer_store (after (start ''a'' 0 init)) ! 0 = new_timer ''a'' 0
   \<and> timer_store (after (reset ''a'' 5 (after (start ''a'' 0 init)))) ! 1 = new_timer ''a'' 5
   \<and> outcome (stop ''a'' 3 (after (start ''a'' 0 init))) = Inr ()
   \<and> t_label (timer_store (after (start ''a'' 0 init)) ! 0) = ''a''
   \<and> warned (timer_run 0 (run [Start ''b'' 4] (after (stop ''a'' 3 (after (start ''a'' 0 init))))))
       = []
   \<and> active_segments (run [Start ''a'' 0, Stop ''a'' 3, Start ''a'' 7] init) ''a'' = Some 7
   \<and> warned (warn_if_over_limit ''a'' 0 (run [Start ''a'' 0, Stop ''a'' 3, Start ''a'' 7] init))
       = []
   \<and> warned (timer_run 0 (run [Stop ''a'' 700, Start ''a'' 0]
                 (after (timer_run 0 (after (start ''a'' 0 init)))))) = []
   \<and> warned (timer_run 1 (run [Start ''a'' 0, Reset ''a'' 0] init)) \<noteq> []
   \<and> timers (run [Start ''a'' 0, Reset ''a'' 0] init) ''a'' = Some 1"
proof -
  have h1: "warned (warn_if_over_limit ''a'' 0 (after (start ''a'' 0 init))) \<noteq> []"
    by (simp add: model_defs)
  have h2: "warned (timer_run 0 (after (start ''a'' 0 init))) \<noteq> []"
    by (simp add: model_defs)
  have h3: "outcome (start ''a'' 0 init) = Inr ()"
    by (simp add: model_defs)
  have h4: "''a'' \<in> dom (active_segments (after (start ''a'' 0 init)))"
    by (simp add: model_defs)
  have h5: "outcome (stop ''a'' 3 (after (start ''a'' 0 init))) = Inr ()
      \<and> 0 < length (timer_store (after (start ''a'' 0 init)))
      \<and> t_label (timer_store (after (start ''a'' 0 init)) ! 0) = ''a''
      \<and> (\<forall>t. Start ''a'' t \<notin> set [Start ''b'' 4])"
    by (simp add: model_defs)
  have h6: "active_segments (run [Start ''a'' 0, Stop ''a'' 3, Start ''a'' 7] init) ''a'' = Some 7
      \<and> (7 :: real) \<noteq> 0"
    by (simp add: model_defs)
  have h7: "length (timer_store init) = 0 \<and> length (timer_store (after (start ''a'' 0 init))) = 1"
    by (simp add: model_defs)
  have h8: "warned (timer_run 1 (run [Start ''a'' 0, Reset ''a'' 0] init)) \<noteq> []"
    by (simp add: model_defs)
  have h9: "t_label (timer_store (run [Start ''a'' 0, Reset ''a'' 0] init) ! 1) = ''a''"
    by (simp add: model_defs)
  show ?thesis
    using h1 h2 h3 h4 h5 h6 h7 h8 h9
      warning_guard [where l = "''a''" and st = 0 and s = "after (start ''a'' 0 init)"
        and ra = 0 and sa = "after (start ''a'' 0 init)"
        and lb = "''a''" and nowb = 0 and sb = init
        and lc = "''a''" and nowc = 5 and sc = "after (start ''a'' 0 init)"
        and ld = "''a''" and nowd = 3 and sd = "after (start ''a'' 0 init)" and rd = 0
        and evsd = "[Start ''b'' 4]"
        and le = "''a''" and ste = 0 and st' = 7
        and se = "run [Start ''a'' 0, Stop ''a'' 3, Start ''a'' 7] init"
        and rf = 0 and sf = "after (start ''a'' 0 init)"
        and evsf = "[Stop ''a'' 700, Start ''a'' 0]"
        and rg = 1 and evsg = "[Start ''a'' 0, Reset ''a'' 0]"]
    by simp
qed

subsection \<open>No mutual exclusion\<close>

lemmas thread_defs = boot_def return_from_run_def

text \<open>
  Claim C10 says that a mutual-exclusion mechanism makes the callback's check atomic with
  respect to \<open>stop\<close> and \<open>reset\<close>, so that no warning is emitted for a segment that has
  completed and restarted. The code has no such mechanism. In the schedule below the timer
  of the segment started at 0 passes its check, the caller then stops the segment and starts
  it again at 601, and the timer thread then warns: the warning names a label whose active
  segment is not the one the timer was created for.
\<close>

theorem unguarded_callback_counterexample:
  "fst (play [CallStart ''a'' 0, Wake 0, Guard 0, CallStop ''a'' 600, CallStart ''a'' 601, Warn 0]
          boot) = [UserWarning (long_running_message ''a'')]
   \<and> fst (act (Warn 0)
        (snd (play [CallStart ''a'' 0, Wake 0, Guard 0, CallStop ''a'' 600, CallStart ''a'' 601]
                boot))) = [UserWarning (long_running_message ''a'')]
   \<and> t_start_time (timer_store (shared
        (snd (play [CallStart ''a'' 0, Wake 0, Guard 0, CallStop ''a'' 600, CallStart ''a'' 601]
                boot))) ! 0) = 0
   \<and> active_segments (shared
        (snd (play [CallStart ''a'' 0, Wake 0, Guard 0, CallStop ''a'' 600, CallStart ''a'' 601]
                boot))) ''a'' = Some 601
   \<and> completed_segments (shared
        (snd (play [CallStart ''a'' 0, Wake 0, Guard 0, CallStop ''a'' 600, CallStart ''a'' 601]
                boot))) = [(''a'', 600)]"
  by (simp add: thread_defs model_defs)

text \<open>
  Claim C10 as amended. When the three steps of a timer thread run with no other step in
  between, they are the atomic wake-up \<open>timer_run\<close>: same warnings, same state, and a
  warning only if the label is active with the timer's start time.
\<close>

theorem callback_uninterrupted:
  "position_of c r = Sleeping \<longrightarrow>
     fst (play [Wake r, Guard r, Warn r] c) = warned (timer_run r (shared c))
     \<and> shared (snd (play [Wake r, Guard r, Warn r] c)) = after (timer_run r (shared c))
     \<and> (fst (play [Wake r, Guard r, Warn r] c) \<noteq> [] \<longrightarrow>
          active_segments (shared c) (t_label (timer_store (shared c) ! r)) =
            Some (t_start_time (timer_store (shared c) ! r)))"
  by (auto simp add: return_from_run_def timer_run_def warn_if_over_limit_def Let_def
      timer_cancel_def update_timer_def)

theorem callback_uninterrupted_witness:
  "position_of (snd (play [CallStart ''a'' 0] boot)) 0 = Sleeping
   \<and> fst (play [Wake 0, Guard 0, Warn 0] (snd (play [CallStart ''a'' 0] boot))) =
       [UserWarning (long_running_message ''a'')]
   \<and> active_segments (shared (snd (play [CallStart ''a'' 0] boot))) ''a'' = Some 0
   \<and> t_start_time (timer_store (shared (snd (play [CallStart ''a'' 0] boot))) ! 0) = 0"
proof -
  have h1: "position_of (snd (play [CallStart ''a'' 0] boot)) 0 = Sleeping"
    by (simp add: thread_defs model_defs)
  have h2: "warned (timer_run 0 (shared (snd (play [CallStart ''a'' 0] boot)))) =
      [UserWarning (long_running_message ''a'')]"
    by (simp add: thread_defs model_defs)
  have h3: "t_label (timer_store (shared (snd (play [CallStart ''a'' 0] boot))) ! 0) = ''a''
      \<and> t_start_time (timer_store (shared (snd (play [CallStart ''a'' 0] boot))) ! 0) = 0"
    by (simp add: thread_defs model_defs)
  show ?thesis
    using h1 h2 h3 callback_uninterrupted [of "snd (play [CallStart ''a'' 0] boot)" 0]
    by simp
qed

end
